theory Spec2Isabelle
  imports Main "HOL-Library.Word"
begin

section \<open>Data model of \<open>consul/serf.go\<close>\<close>

text \<open>
  The gossip library's member record (\<open>serf.Member\<close>) and its status enumeration, as the
  handlers of \<open>serf.go\<close> read them: a name, a network address (\<open>net.IP\<close>, a byte slice),
  the advertised role tag and the status.
\<close>

datatype MemberStatus = StatusNone | StatusAlive | StatusLeaving | StatusLeft | StatusFailed

record member =
  Name :: string
  Addr :: "8 word list"
  Role :: string
  Status :: MemberStatus

text \<open>\<open>net.TCPAddr{IP: m.Addr, Port: port}\<close>: the candidate address.\<close>

record tcpaddr =
  IP :: "8 word list"
  Port :: int

text \<open>
  Every \<open>s.logger.Printf\<close> call site of the file is one constructor, carrying the values
  the call formats.
\<close>

datatype diag =
    UnhandledEvent
  | WrongCluster string string
  | NonConsulInWAN string
  | AddingServer string tcpaddr
  | RemovingServer string tcpaddr
  | FailedParseRole string
  | FailedGetPeers string
  | FailedAddPeer string

text \<open>The run-time panic of an index expression outside the slice: index and length.\<close>

datatype error = IndexOutOfRange nat nat

text \<open>The two kinds of \<open>strconv.NumError\<close>.\<close>

datatype num_error = ErrSyntax | ErrRange

text \<open>\<open>s.config\<close>: the fields the handlers read.\<close>

record config =
  Datacenter :: string
  NodeName :: string

text \<open>
  The server state the handlers touch: the directory \<open>remoteConsuls\<close>, the lines written
  to the logger, the join tasks launched with \<open>go\<close>, and a record of every call made to
  the consensus engine, the membership snapshot and the back-off sleep.
\<close>

record server =
  remoteConsuls :: "string \<rightharpoonup> tcpaddr list"
  logs :: "diag list"
  spawned :: "(member \<times> int) list"
  peer_reads :: nat
  member_reads :: nat
  add_peer_reqs :: "tcpaddr list"
  sleeps :: nat

text \<open>
  The external collaborators, each answering its k-th call: \<open>raftPeers.Peers()\<close> (an error
  text or the peer list), \<open>serfLAN.Members()\<close>, the error of the future of
  \<open>raft.AddPeer\<close> (\<open>None\<close> is success), and whether \<open>shutdownCh\<close> is readable when the
  \<open>select\<close> after the k-th sleep looks at it.
\<close>

record env =
  Peers_reply :: "nat \<Rightarrow> string + tcpaddr list"
  Members_reply :: "nat \<Rightarrow> member list"
  AddPeer_reply :: "nat \<Rightarrow> tcpaddr \<Rightarrow> string option"
  shutdown_closed :: "nat \<Rightarrow> bool"

definition empty_server :: server where
  "empty_server =
     \<lparr>remoteConsuls = Map.empty, logs = [], spawned = [], peer_reads = 0,
      member_reads = 0, add_peer_reqs = [], sleeps = 0\<rparr>"

section \<open>The library functions the classifier calls\<close>

text \<open>\<open>strings.HasPrefix\<close>: \<open>len(s) >= len(prefix) && s[:len(prefix)] == prefix\<close>.\<close>

definition HasPrefix :: "string \<Rightarrow> string \<Rightarrow> bool" where
  "HasPrefix s prefix \<longleftrightarrow> length prefix \<le> length s \<and> take (length prefix) s = prefix"

text \<open>\<open>strings.Index\<close>: the position of the first occurrence of \<open>sep\<close> in \<open>s\<close>.\<close>

fun Index :: "string \<Rightarrow> string \<Rightarrow> nat option" where
  "Index [] sep = (if sep = [] then Some 0 else None)"
| "Index (c # cs) sep =
     (if HasPrefix (c # cs) sep then Some 0 else map_option Suc (Index cs sep))"

text \<open>
  The loop of \<open>strings.genSplit\<close> for a non-empty separator: at most \<open>k\<close> cuts, the rest
  of the string is the last piece.
\<close>

fun genSplit :: "string \<Rightarrow> string \<Rightarrow> nat \<Rightarrow> string list" where
  "genSplit s sep 0 = [s]"
| "genSplit s sep (Suc k) =
     (case Index s sep of
        None \<Rightarrow> [s]
      | Some m \<Rightarrow> take m s # genSplit (drop (m + length sep) s) sep k)"

text \<open>
  \<open>strings.SplitN(s, sep, n)\<close> for \<open>n \<ge> 0\<close> and a non-empty \<open>sep\<close> (the file's only call
  is \<open>SplitN(role, ":", 3)\<close>): no piece for \<open>n = 0\<close>, at most \<open>n\<close> pieces otherwise.
\<close>

definition SplitN :: "string \<Rightarrow> string \<Rightarrow> nat \<Rightarrow> string list" where
  "SplitN s sep n = (if n = 0 then [] else genSplit s sep (n - 1))"

text \<open>An index expression \<open>a[i]\<close>: the element, or the run-time panic.\<close>

definition index :: "'a list \<Rightarrow> nat \<Rightarrow> error + 'a" where
  "index a i = (if i < length a then Inr (a ! i) else Inl (IndexOutOfRange i (length a)))"

text \<open>
  \<open>strconv.Atoi\<close>, that is \<open>ParseInt(s, 10, 0)\<close>: an optional sign, then one or more
  decimal digits, and the value must fit the machine \<open>int\<close> of \<open>intSize\<close> bits.
\<close>

definition intSize :: nat where
  "intSize = 64"

definition is_digit :: "char \<Rightarrow> bool" where
  "is_digit c \<longleftrightarrow> 48 \<le> (of_char c :: nat) \<and> (of_char c :: nat) \<le> 57"

definition digit_val :: "char \<Rightarrow> int" where
  "digit_val c = (of_char c :: int) - 48"

fun parse_digits :: "int \<Rightarrow> string \<Rightarrow> int option" where
  "parse_digits acc [] = Some acc"
| "parse_digits acc (c # cs) =
     (if is_digit c then parse_digits (acc * 10 + digit_val c) cs else None)"

definition Atoi :: "string \<Rightarrow> num_error + int" where
  "Atoi s =
     (if s = [] then Inl ErrSyntax
      else
        let neg = (hd s = CHR ''-'');
            body = (if hd s = CHR ''-'' \<or> hd s = CHR ''+'' then tl s else s)
        in if body = [] then Inl ErrSyntax
           else case parse_digits 0 body of
                  None \<Rightarrow> Inl ErrSyntax
                | Some un \<Rightarrow>
                    if \<not> neg \<and> 2 ^ (intSize - 1) \<le> un then Inl ErrRange
                    else if neg \<and> 2 ^ (intSize - 1) < un then Inl ErrRange
                    else Inr (if neg then - un else un))"

text \<open>The number a string of decimal digits denotes, most significant digit first.\<close>

definition decimal :: "string \<Rightarrow> int" where
  "decimal ds = foldl (\<lambda>a c. a * 10 + digit_val c) 0 ds"

text \<open>
  A numeric string, as the wire format has the port: an optional sign followed by one or
  more decimal digits. Every other string is non-numeric.
\<close>

definition numeric :: "string \<Rightarrow> bool" where
  "numeric P \<longleftrightarrow>
     (case P of
        [] \<Rightarrow> False
      | c # cs \<Rightarrow>
          if c = CHR ''-'' \<or> c = CHR ''+'' then cs \<noteq> [] \<and> list_all is_digit cs
          else list_all is_digit P)"

section \<open>The member classifier\<close>

definition isConsulServer :: "member \<Rightarrow> server \<Rightarrow> error + ((bool \<times> string \<times> int) \<times> server)" where
  "isConsulServer m s =
     (let role = Role m in
      if \<not> HasPrefix role ''consul:'' then Inr ((False, [], 0), s)
      else
        let parts = SplitN role '':'' 3 in
        case index parts 1 of
          Inl e \<Rightarrow> Inl e
        | Inr datacenter \<Rightarrow>
            (case index parts 2 of
               Inl e \<Rightarrow> Inl e
             | Inr port_str \<Rightarrow>
                 (case Atoi port_str of
                    Inl err \<Rightarrow> Inr ((False, [], 0), s\<lparr>logs := logs s @ [FailedParseRole role]\<rparr>)
                  | Inr port \<Rightarrow> Inr ((True, datacenter, port), s))))"

section \<open>The remote topology directory\<close>

text \<open>
  The two handlers compare addresses by their rendering, \<open>e.String() == addr.String()\<close>.
  \<open>(*net.TCPAddr).String\<close> belongs to the standard library; the model takes it as the
  parameter \<open>str\<close>, so every result below holds for whatever rendering it is.
\<close>

text \<open>The scan \<open>for _, e := range existing\<close> that sets \<open>found\<close> and breaks.\<close>

fun addr_known :: "(tcpaddr \<Rightarrow> string) \<Rightarrow> tcpaddr \<Rightarrow> tcpaddr list \<Rightarrow> bool" where
  "addr_known str addr [] = False"
| "addr_known str addr (e # es) = (if str e = str addr then True else addr_known str addr es)"

text \<open>\<open>s.remoteConsuls[dc]\<close>: a missing key reads as the nil slice.\<close>

definition map_index :: "(string \<rightharpoonup> tcpaddr list) \<Rightarrow> string \<Rightarrow> tcpaddr list" where
  "map_index d dc = (case d dc of None \<Rightarrow> [] | Some l \<Rightarrow> l)"

text \<open>The body of the loop of \<open>remoteJoin\<close>, for one member.\<close>

definition remoteJoin_member :: "(tcpaddr \<Rightarrow> string) \<Rightarrow> member \<Rightarrow> server \<Rightarrow> error + server" where
  "remoteJoin_member str m s =
     (case isConsulServer m s of
        Inl e \<Rightarrow> Inl e
      | Inr ((ok, dc, port), s1) \<Rightarrow>
          if \<not> ok then Inr (s1\<lparr>logs := logs s1 @ [NonConsulInWAN (Name m)]\<rparr>)
          else
            let addr = \<lparr>IP = Addr m, Port = port\<rparr>;
                s2 = s1\<lparr>logs := logs s1 @ [AddingServer dc addr]\<rparr>;
                existing = map_index (remoteConsuls s2) dc;
                found = addr_known str addr existing
            in if \<not> found
               then Inr (s2\<lparr>remoteConsuls := (remoteConsuls s2)(dc \<mapsto> existing @ [addr])\<rparr>)
               else Inr s2)"

fun remoteJoin :: "(tcpaddr \<Rightarrow> string) \<Rightarrow> member list \<Rightarrow> server \<Rightarrow> error + server" where
  "remoteJoin str [] s = Inr s"
| "remoteJoin str (m # ms) s =
     (case remoteJoin_member str m s of Inl e \<Rightarrow> Inl e | Inr s' \<Rightarrow> remoteJoin str ms s')"

text \<open>
  The removal loop of \<open>remoteFailed\<close>: \<open>for i := 0; i < n; i++\<close>, and at the first match
  the last element is moved into slot \<open>i\<close>, the slice is cut by one and the loop breaks.
  The result is the slice and \<open>n\<close>.
\<close>

function remove_loop ::
  "(tcpaddr \<Rightarrow> string) \<Rightarrow> tcpaddr \<Rightarrow> tcpaddr list \<Rightarrow> nat \<Rightarrow> nat \<Rightarrow> tcpaddr list \<times> nat" where
  "remove_loop str addr existing i n =
     (if i < n then
        (if str (existing ! i) = str addr
         then (take (n - 1) (existing[i := existing ! (n - 1)]), n - 1)
         else remove_loop str addr existing (i + 1) n)
      else (existing, n))"
  by pat_completeness auto
termination
  by (relation "measure (\<lambda>(str, addr, existing, i, n). n - i)") auto

declare remove_loop.simps [simp del]

text \<open>The body of the loop of \<open>remoteFailed\<close>, for one member.\<close>

definition remoteFailed_member :: "(tcpaddr \<Rightarrow> string) \<Rightarrow> member \<Rightarrow> server \<Rightarrow> error + server" where
  "remoteFailed_member str m s =
     (case isConsulServer m s of
        Inl e \<Rightarrow> Inl e
      | Inr ((ok, dc, port), s1) \<Rightarrow>
          if \<not> ok then Inr s1
          else
            let addr = \<lparr>IP = Addr m, Port = port\<rparr>;
                s2 = s1\<lparr>logs := logs s1 @ [RemovingServer dc addr]\<rparr>;
                existing = map_index (remoteConsuls s2) dc;
                (existing', n) = remove_loop str addr existing 0 (length existing)
            in if n = 0
               then Inr (s2\<lparr>remoteConsuls := (remoteConsuls s2)(dc := None)\<rparr>)
               else Inr (s2\<lparr>remoteConsuls := (remoteConsuls s2)(dc \<mapsto> existing')\<rparr>))"

fun remoteFailed :: "(tcpaddr \<Rightarrow> string) \<Rightarrow> member list \<Rightarrow> server \<Rightarrow> error + server" where
  "remoteFailed str [] s = Inr s"
| "remoteFailed str (m # ms) s =
     (case remoteFailed_member str m s of Inl e \<Rightarrow> Inl e | Inr s' \<Rightarrow> remoteFailed str ms s')"

section \<open>The local view\<close>

text \<open>The body of the loop of \<open>localJoin\<close>; \<open>go s.joinConsulServer(m, port)\<close> is recorded
  in \<open>spawned\<close>.\<close>

definition localJoin_member :: "config \<Rightarrow> member \<Rightarrow> server \<Rightarrow> error + server" where
  "localJoin_member cfg m s =
     (case isConsulServer m s of
        Inl e \<Rightarrow> Inl e
      | Inr ((ok, dc, port), s1) \<Rightarrow>
          if \<not> ok then Inr s1
          else if dc \<noteq> Datacenter cfg
          then Inr (s1\<lparr>logs := logs s1 @ [WrongCluster (Name m) dc]\<rparr>)
          else Inr (s1\<lparr>spawned := spawned s1 @ [(m, port)]\<rparr>))"

fun localJoin :: "config \<Rightarrow> member list \<Rightarrow> server \<Rightarrow> error + server" where
  "localJoin cfg [] s = Inr s"
| "localJoin cfg (m # ms) s =
     (case localJoin_member cfg m s of Inl e \<Rightarrow> Inl e | Inr s' \<Rightarrow> localJoin cfg ms s')"

section \<open>The event dispatchers\<close>

text \<open>A gossip event: its type and, for the member events, its members.\<close>

datatype event =
    EventMemberJoin "member list"
  | EventMemberLeave "member list"
  | EventMemberFailed "member list"
  | EventUser
  | EventOther

text \<open>The \<open>switch\<close> of \<open>wanEventHandler\<close> on one event; leave falls through to failed.\<close>

fun wanEvent :: "(tcpaddr \<Rightarrow> string) \<Rightarrow> event \<Rightarrow> server \<Rightarrow> error + server" where
  "wanEvent str (EventMemberJoin ms) s = remoteJoin str ms s"
| "wanEvent str (EventMemberLeave ms) s = remoteFailed str ms s"
| "wanEvent str (EventMemberFailed ms) s = remoteFailed str ms s"
| "wanEvent str EventUser s = Inr s"
| "wanEvent str EventOther s = Inr (s\<lparr>logs := logs s @ [UnhandledEvent]\<rparr>)"

text \<open>The loop of \<open>wanEventHandler\<close> over the events delivered before the shutdown.\<close>

fun wanEventHandler :: "(tcpaddr \<Rightarrow> string) \<Rightarrow> event list \<Rightarrow> server \<Rightarrow> error + server" where
  "wanEventHandler str [] s = Inr s"
| "wanEventHandler str (e # es) s =
     (case wanEvent str e s of Inl x \<Rightarrow> Inl x | Inr s' \<Rightarrow> wanEventHandler str es s')"

text \<open>The \<open>switch\<close> of \<open>lanEventHandler\<close>: leave, failed and user events do nothing.\<close>

fun lanEvent :: "config \<Rightarrow> event \<Rightarrow> server \<Rightarrow> error + server" where
  "lanEvent cfg (EventMemberJoin ms) s = localJoin cfg ms s"
| "lanEvent cfg (EventMemberLeave ms) s = Inr s"
| "lanEvent cfg (EventMemberFailed ms) s = Inr s"
| "lanEvent cfg EventUser s = Inr s"
| "lanEvent cfg EventOther s = Inr (s\<lparr>logs := logs s @ [UnhandledEvent]\<rparr>)"

section \<open>The join-retry task\<close>

fun memberStatus :: "member list \<Rightarrow> string \<Rightarrow> MemberStatus" where
  "memberStatus [] name = StatusNone"
| "memberStatus (m # members) name =
     (if Name m = name then Status m else memberStatus members name)"

text \<open>
  The loop of \<open>joinConsulServer\<close> from the label \<open>CHECK\<close>; the block at \<open>WAIT\<close> (sleep, then
  leave on shutdown or jump back) is written out at both places that reach it. The loop
  has no bound, so the result is an option: \<open>None\<close> is a task that never returns.
\<close>

partial_function (option) join_CHECK ::
  "(tcpaddr \<Rightarrow> string) \<Rightarrow> env \<Rightarrow> member \<Rightarrow> tcpaddr \<Rightarrow> server \<Rightarrow> server option" where
  "join_CHECK str ev m addr s =
     (let s1 = s\<lparr>peer_reads := peer_reads s + 1\<rparr> in
      case Peers_reply ev (peer_reads s) of
        Inl err \<Rightarrow>
          (let s2 = s1\<lparr>logs := logs s1 @ [FailedGetPeers err]\<rparr>;
               s3 = s2\<lparr>sleeps := sleeps s2 + 1\<rparr>
           in if shutdown_closed ev (sleeps s2) then Some s3
              else join_CHECK str ev m addr s3)
      | Inr peers \<Rightarrow>
          if addr_known str addr peers then Some s1
          else
            let s2 = s1\<lparr>member_reads := member_reads s1 + 1\<rparr> in
            if memberStatus (Members_reply ev (member_reads s1)) (Name m) \<noteq> StatusAlive
            then Some s2
            else
              let s3 = s2\<lparr>add_peer_reqs := add_peer_reqs s2 @ [addr]\<rparr> in
              (case AddPeer_reply ev (length (add_peer_reqs s2)) addr of
                 None \<Rightarrow> Some s3
               | Some err \<Rightarrow>
                   (let s4 = s3\<lparr>logs := logs s3 @ [FailedAddPeer err]\<rparr>;
                        s5 = s4\<lparr>sleeps := sleeps s4 + 1\<rparr>
                    in if shutdown_closed ev (sleeps s4) then Some s5
                       else join_CHECK str ev m addr s5)))"

definition joinConsulServer ::
  "config \<Rightarrow> (tcpaddr \<Rightarrow> string) \<Rightarrow> env \<Rightarrow> member \<Rightarrow> int \<Rightarrow> server \<Rightarrow> server option" where
  "joinConsulServer cfg str ev m port s =
     (if Name m = NodeName cfg then Some s
      else join_CHECK str ev m \<lparr>IP = Addr m, Port = port\<rparr> s)"

section \<open>The directory invariant\<close>

text \<open>
  Every site key present holds a non-empty list in which no two addresses render alike
  (so no two are equal).
\<close>

definition dir_inv :: "(tcpaddr \<Rightarrow> string) \<Rightarrow> (string \<rightharpoonup> tcpaddr list) \<Rightarrow> bool" where
  "dir_inv str d \<longleftrightarrow> (\<forall>dc l. d dc = Some l \<longrightarrow> l \<noteq> [] \<and> distinct (map str l))"

section \<open>A concrete rendering of addresses\<close>

text \<open>
  One possible \<open>String\<close>, for the worked examples: the bytes of the address, a colon and
  the two low bytes of the port.
\<close>

definition raw_String :: "tcpaddr \<Rightarrow> string" where
  "raw_String a =
     map (\<lambda>b. char_of (unat b)) (IP a) @ CHR '':'' #
       [char_of (nat (Port a) div 256), char_of (nat (Port a))]"

section \<open>Properties of the classifier\<close>

lemma HasPrefix_append: "HasPrefix (p @ r) p"
  by (simp add: HasPrefix_def)

lemma HasPrefix_single: "HasPrefix (x # xs) [c] \<longleftrightarrow> x = c"
  by (simp add: HasPrefix_def)

lemma Index_first: "c \<notin> set xs \<Longrightarrow> Index (xs @ c # ys) [c] = Some (length xs)"
  by (induction xs) (auto simp: HasPrefix_single)

lemma Index_absent: "c \<notin> set xs \<Longrightarrow> Index xs [c] = None"
  by (induction xs) (auto simp: HasPrefix_single)

lemma SplitN_three:
  assumes "CHR '':'' \<notin> set S"
  shows "SplitN (''consul:'' @ S @ '':'' @ P) '':'' 3 = [''consul'', S, P]"
proof -
  have a: "Index (''consul'' @ CHR '':'' # (S @ '':'' @ P)) '':'' = Some (length ''consul'')"
    by (rule Index_first) simp
  have b: "Index (S @ CHR '':'' # P) '':'' = Some (length S)"
    using assms by (rule Index_first)
  have "genSplit (''consul'' @ CHR '':'' # (S @ '':'' @ P)) '':'' (Suc (Suc 0)) = [''consul'', S, P]"
    unfolding genSplit.simps a using b by simp
  then show ?thesis by (simp add: SplitN_def numeral_2_eq_2)
qed

lemma SplitN_two:
  assumes "CHR '':'' \<notin> set R"
  shows "SplitN (''consul:'' @ R) '':'' 3 = [''consul'', R]"
proof -
  have a: "Index (''consul'' @ CHR '':'' # R) '':'' = Some (length ''consul'')"
    by (rule Index_first) simp
  have b: "Index R '':'' = None"
    using assms by (rule Index_absent)
  have "genSplit (''consul'' @ CHR '':'' # R) '':'' (Suc (Suc 0)) = [''consul'', R]"
    unfolding genSplit.simps a using b by simp
  then show ?thesis by (simp add: SplitN_def numeral_2_eq_2)
qed

lemma parse_digits_foldl:
  "\<forall>c\<in>set ds. is_digit c \<Longrightarrow>
   parse_digits acc ds = Some (foldl (\<lambda>a c. a * 10 + digit_val c) acc ds)"
  by (induction ds arbitrary: acc) simp_all

lemma parse_digits_decimal: "\<forall>c\<in>set ds. is_digit c \<Longrightarrow> parse_digits 0 ds = Some (decimal ds)"
  by (simp add: parse_digits_foldl decimal_def)

lemma sign_not_digit: "\<not> is_digit CHR ''-''" "\<not> is_digit CHR ''+''"
  by (simp_all add: is_digit_def)

lemma Atoi_unsigned:
  assumes "ds \<noteq> []" "\<forall>c\<in>set ds. is_digit c" "decimal ds < 2 ^ (intSize - 1)"
  shows "Atoi ds = Inr (decimal ds)"
proof -
  from assms(1,2) have "is_digit (hd ds)" by (cases ds) simp_all
  then have "hd ds \<noteq> CHR ''-''" "hd ds \<noteq> CHR ''+''"
    using sign_not_digit by auto
  then show ?thesis
    using assms by (simp add: Atoi_def parse_digits_decimal)
qed

lemma Atoi_plus:
  assumes "ds \<noteq> []" "\<forall>c\<in>set ds. is_digit c" "decimal ds < 2 ^ (intSize - 1)"
  shows "Atoi (CHR ''+'' # ds) = Inr (decimal ds)"
  using assms by (simp add: Atoi_def parse_digits_decimal)

lemma Atoi_minus:
  assumes "ds \<noteq> []" "\<forall>c\<in>set ds. is_digit c" "decimal ds \<le> 2 ^ (intSize - 1)"
  shows "Atoi (CHR ''-'' # ds) = Inr (- decimal ds)"
  using assms by (simp add: Atoi_def parse_digits_decimal)

lemma parse_digits_non_digit:
  "\<not> list_all is_digit ds \<Longrightarrow> parse_digits acc ds = None"
  by (induction ds arbitrary: acc) auto

lemma Atoi_non_numeric: "\<not> numeric P \<Longrightarrow> Atoi P = Inl ErrSyntax"
proof (cases P)
  case Nil
  then show ?thesis by (simp add: Atoi_def)
next
  case (Cons c cs)
  assume n: "\<not> numeric P"
  show ?thesis
  proof (cases "c = CHR ''-'' \<or> c = CHR ''+''")
    case True
    with n Cons have "cs = [] \<or> \<not> list_all is_digit cs" by (auto simp: numeric_def)
    then show ?thesis
      using True Cons by (auto simp: Atoi_def Let_def parse_digits_non_digit)
  next
    case False
    with n Cons have "\<not> list_all is_digit P" by (auto simp: numeric_def)
    then show ?thesis
      using False Cons by (auto simp: Atoi_def Let_def parse_digits_non_digit)
  qed
qed

lemma Atoi_syntax_iff: "Atoi P = Inl ErrSyntax \<longleftrightarrow> \<not> numeric P"
proof
  assume "\<not> numeric P" then show "Atoi P = Inl ErrSyntax" by (rule Atoi_non_numeric)
next
  assume a: "Atoi P = Inl ErrSyntax"
  show "\<not> numeric P"
  proof
    assume n: "numeric P"
    then obtain c cs where P: "P = c # cs" by (cases P) (auto simp: numeric_def)
    from P have ne: "P \<noteq> []" and h: "hd P = c" and t: "tl P = cs" by simp_all
    show False
    proof (cases "c = CHR ''-'' \<or> c = CHR ''+''")
      case True
      with n P have cs: "cs \<noteq> []" "\<forall>x\<in>set cs. is_digit x"
        by (auto simp: numeric_def list_all_iff)
      have "Atoi P \<noteq> Inl ErrSyntax"
        using ne h t True cs by (auto simp: Atoi_def Let_def parse_digits_decimal)
      with a show False by simp
    next
      case False
      with n P have "\<forall>x\<in>set P. is_digit x" by (auto simp: numeric_def list_all_iff)
      then have pd: "parse_digits 0 P = Some (decimal P)" by (rule parse_digits_decimal)
      have "Atoi P \<noteq> Inl ErrSyntax"
        using ne h False by (auto simp: Atoi_def Let_def pd)
      with a show False by simp
    qed
  qed
qed

lemma isConsulServer_three:
  assumes "Role m = ''consul:'' @ S @ '':'' @ P" "CHR '':'' \<notin> set S"
  shows "isConsulServer m s =
     (case Atoi P of
        Inl err \<Rightarrow> Inr ((False, [], 0), s\<lparr>logs := logs s @ [FailedParseRole (Role m)]\<rparr>)
      | Inr port \<Rightarrow> Inr ((True, S, port), s))"
proof -
  have p: "HasPrefix (Role m) ''consul:''"
    unfolding assms(1) by (rule HasPrefix_append)
  have sp: "SplitN (Role m) '':'' 3 = [''consul'', S, P]"
    unfolding assms(1) using assms(2) by (rule SplitN_three)
  show ?thesis
    by (simp add: isConsulServer_def p sp index_def numeral_2_eq_2 Let_def)
qed

lemma isConsulServer_two:
  assumes "Role m = ''consul:'' @ R" "CHR '':'' \<notin> set R"
  shows "isConsulServer m s = Inl (IndexOutOfRange 2 2)"
proof -
  have p: "HasPrefix (Role m) ''consul:''"
    unfolding assms(1) by (rule HasPrefix_append)
  have sp: "SplitN (Role m) '':'' 3 = [''consul'', R]"
    unfolding assms(1) using assms(2) by (rule SplitN_two)
  show ?thesis
    by (simp add: isConsulServer_def p sp index_def numeral_2_eq_2 Let_def)
qed

text \<open>
  C1. The claim: classification completes for every role string, and a tag with the marker
  prefix but no site or port field (\<open>consul:\<close>, \<open>consul:dc1\<close>) classifies as
  non-participant. The code reads \<open>parts[2]\<close> without looking at the number of pieces:
  on both tags \<open>SplitN\<close> gives two pieces and the index expression panics.
\<close>

theorem isConsulServer_missing_field_panics:
  "isConsulServer \<lparr>Name = n, Addr = a, Role = ''consul:dc1'', Status = st\<rparr> s
     = Inl (IndexOutOfRange 2 2) \<and>
   isConsulServer \<lparr>Name = n, Addr = a, Role = ''consul:'', Status = st\<rparr> s
     = Inl (IndexOutOfRange 2 2)"
proof -
  have "isConsulServer \<lparr>Name = n, Addr = a, Role = ''consul:dc1'', Status = st\<rparr> s
          = Inl (IndexOutOfRange 2 2)"
    by (rule isConsulServer_two [where R = "''dc1''"]) simp_all
  moreover
  have "isConsulServer \<lparr>Name = n, Addr = a, Role = ''consul:'', Status = st\<rparr> s
          = Inl (IndexOutOfRange 2 2)"
    by (rule isConsulServer_two [where R = "[]"]) simp_all
  ultimately show ?thesis by simp
qed

text \<open>
  C3, as stated: for every tag \<open>consul:S:P\<close> with \<open>P\<close> a non-negative decimal integer
  string, classification yields \<open>(true, S, P)\<close>. It fails where the number does not fit
  the machine \<open>int\<close>: \<open>Atoi\<close> returns a range error and the member is classified as
  non-participant, with the diagnostic.
\<close>

theorem isConsulServer_port_out_of_range:
  "list_all is_digit ''9223372036854775808'' \<and>
   isConsulServer
     \<lparr>Name = ''n1'', Addr = [10, 0, 0, 1], Role = ''consul:dc1:9223372036854775808'',
      Status = StatusAlive\<rparr> empty_server
     = Inr ((False, [], 0),
            empty_server\<lparr>logs := [FailedParseRole ''consul:dc1:9223372036854775808'']\<rparr>)"
  by (simp add: isConsulServer_def HasPrefix_def SplitN_def index_def numeral_2_eq_2
        Atoi_def is_digit_def digit_val_def intSize_def empty_server_def)

text \<open>
  C3, amended: for every tag \<open>consul:S:P\<close> where the site field \<open>S\<close> has no colon and \<open>P\<close>
  is a non-empty string of decimal digits whose value is below \<open>2 ^ (intSize - 1)\<close>,
  classification yields participant, site \<open>S\<close> and the value of \<open>P\<close> as the port, and
  writes no diagnostic.
\<close>

theorem isConsulServer_well_formed:
  assumes "Role m = ''consul:'' @ S @ '':'' @ P"
    and "CHR '':'' \<notin> set S"
    and "P \<noteq> []" and "\<forall>c\<in>set P. is_digit c"
    and "decimal P < 2 ^ (intSize - 1)"
  shows "isConsulServer m s = Inr ((True, S, decimal P), s)"
  using isConsulServer_three [OF assms(1,2)] Atoi_unsigned [OF assms(3,4,5)] by simp

theorem isConsulServer_well_formed_witness:
  "isConsulServer
     \<lparr>Name = ''n1'', Addr = [10, 0, 0, 1], Role = ''consul:dc1:8300'', Status = StatusAlive\<rparr>
     empty_server
     = Inr ((True, ''dc1'', 8300), empty_server)"
  using isConsulServer_well_formed
    [of "\<lparr>Name = ''n1'', Addr = [10, 0, 0, 1], Role = ''consul:dc1:8300'', Status = StatusAlive\<rparr>"
      "''dc1''" "''8300''" empty_server]
  by (simp add: decimal_def is_digit_def digit_val_def intSize_def)

text \<open>
  C4. A role tag without the marker prefix classifies as \<open>(false, "", 0)\<close> and nothing is
  logged; a tag with the prefix, a site field and a non-numeric port field (anything but an
  optional sign followed by one or more decimal digits) classifies as \<open>(false, "", 0)\<close>
  and exactly one diagnostic is appended to the log.
\<close>

theorem isConsulServer_rejects:
  "(\<not> HasPrefix (Role m) ''consul:'' \<longrightarrow> isConsulServer m s = Inr ((False, [], 0), s)) \<and>
   (Role m = ''consul:'' @ S @ '':'' @ P \<and> CHR '':'' \<notin> set S \<and> \<not> numeric P \<longrightarrow>
      isConsulServer m s
        = Inr ((False, [], 0), s\<lparr>logs := logs s @ [FailedParseRole (Role m)]\<rparr>))"
proof (intro conjI impI)
  assume "\<not> HasPrefix (Role m) ''consul:''"
  then show "isConsulServer m s = Inr ((False, [], 0), s)"
    by (simp add: isConsulServer_def)
next
  assume a: "Role m = ''consul:'' @ S @ '':'' @ P \<and> CHR '':'' \<notin> set S \<and> \<not> numeric P"
  then have r: "Role m = ''consul:'' @ S @ '':'' @ P" "CHR '':'' \<notin> set S" by simp_all
  from a have "Atoi P = Inl ErrSyntax" by (simp add: Atoi_non_numeric)
  with isConsulServer_three [OF r]
  show "isConsulServer m s
          = Inr ((False, [], 0), s\<lparr>logs := logs s @ [FailedParseRole (Role m)]\<rparr>)"
    by simp
qed

theorem isConsulServer_rejects_witness:
  "isConsulServer
     \<lparr>Name = ''n1'', Addr = [10, 0, 0, 1], Role = ''web'', Status = StatusAlive\<rparr> empty_server
     = Inr ((False, [], 0), empty_server) \<and>
   \<not> numeric ''80abc'' \<and>
   isConsulServer
     \<lparr>Name = ''n2'', Addr = [10, 0, 0, 2], Role = ''consul:dc1:80abc'', Status = StatusAlive\<rparr>
     empty_server
     = Inr ((False, [], 0), empty_server\<lparr>logs := [FailedParseRole ''consul:dc1:80abc'']\<rparr>)"
  using
    isConsulServer_rejects
      [of "\<lparr>Name = ''n1'', Addr = [10, 0, 0, 1], Role = ''web'', Status = StatusAlive\<rparr>"
        empty_server "''dc1''" "''80abc''"]
    isConsulServer_rejects
      [of "\<lparr>Name = ''n2'', Addr = [10, 0, 0, 2], Role = ''consul:dc1:80abc'', Status = StatusAlive\<rparr>"
        empty_server "''dc1''" "''80abc''"]
  by (simp add: HasPrefix_def numeric_def is_digit_def empty_server_def)

text \<open>
  C10, as stated: for every tag \<open>consul:S:N\<close> with \<open>N\<close> a signed decimal integer string,
  classification yields \<open>(true, S, N)\<close>. It fails where the number does not fit the
  machine \<open>int\<close>, here one below the least value.
\<close>

theorem isConsulServer_negative_port_out_of_range:
  "list_all is_digit ''9223372036854775809'' \<and>
   isConsulServer
     \<lparr>Name = ''n1'', Addr = [10, 0, 0, 1], Role = ''consul:dc1:-9223372036854775809'',
      Status = StatusAlive\<rparr> empty_server
     = Inr ((False, [], 0),
            empty_server\<lparr>logs := [FailedParseRole ''consul:dc1:-9223372036854775809'']\<rparr>)"
  by (simp add: isConsulServer_def HasPrefix_def SplitN_def index_def numeral_2_eq_2
        Atoi_def is_digit_def digit_val_def intSize_def empty_server_def)

text \<open>
  C10, amended: the classifier checks neither sign nor range of the port beyond what
  \<open>Atoi\<close> checks. For every tag \<open>consul:S:N\<close> where \<open>S\<close> has no colon and \<open>N\<close> is an
  optional sign followed by a non-empty string of decimal digits, with a value from
  \<open>- 2 ^ (intSize - 1)\<close> to \<open>2 ^ (intSize - 1) - 1\<close>, classification yields participant,
  site \<open>S\<close> and that value as the port, negative values included.
\<close>

theorem isConsulServer_signed_port:
  assumes "Role m = ''consul:'' @ S @ '':'' @ sg @ ds"
    and "CHR '':'' \<notin> set S"
    and "sg = [] \<or> sg = ''+'' \<or> sg = ''-''"
    and "ds \<noteq> []" and "\<forall>c\<in>set ds. is_digit c"
    and "if sg = ''-'' then decimal ds \<le> 2 ^ (intSize - 1) else decimal ds < 2 ^ (intSize - 1)"
  shows "isConsulServer m s
           = Inr ((True, S, if sg = ''-'' then - decimal ds else decimal ds), s)"
proof -
  have "Atoi (sg @ ds) = Inr (if sg = ''-'' then - decimal ds else decimal ds)"
    using assms(3)
  proof (elim disjE)
    assume "sg = []"
    with assms(4,5,6) show ?thesis by (simp add: Atoi_unsigned)
  next
    assume "sg = ''+''"
    with assms(4,5,6) show ?thesis by (simp add: Atoi_plus)
  next
    assume "sg = ''-''"
    with assms(4,5,6) show ?thesis by (simp add: Atoi_minus)
  qed
  with isConsulServer_three [OF assms(1,2)] show ?thesis by simp
qed

theorem isConsulServer_signed_port_witness:
  "isConsulServer
     \<lparr>Name = ''n1'', Addr = [10, 0, 0, 1], Role = ''consul:dc1:-1'', Status = StatusAlive\<rparr>
     empty_server
     = Inr ((True, ''dc1'', - 1), empty_server)"
  using isConsulServer_signed_port
    [of "\<lparr>Name = ''n1'', Addr = [10, 0, 0, 1], Role = ''consul:dc1:-1'', Status = StatusAlive\<rparr>"
      "''dc1''" "''-''" "''1''" empty_server]
  by (simp add: decimal_def is_digit_def digit_val_def intSize_def)

section \<open>Properties of the join-retry task\<close>

lemma addr_known_iff: "addr_known str addr l \<longleftrightarrow> (\<exists>e\<in>set l. str e = str addr)"
  by (induction l) auto

lemma memberStatus_absent:
  "\<forall>x\<in>set members. Name x \<noteq> name \<Longrightarrow> memberStatus members name = StatusNone"
  by (induction members) auto

lemma memberStatus_first:
  "\<forall>x\<in>set pre. Name x \<noteq> Name m \<Longrightarrow> memberStatus (pre @ m # post) (Name m) = Status m"
  by (induction pre) auto

text \<open>
  C6. When the candidate's name is this node's own configured name, \<open>joinConsulServer\<close>
  returns at once with the state unchanged: the peer list has not been read and no
  add-peer request has been issued.
\<close>

theorem joinConsulServer_self:
  "Name m = NodeName cfg \<Longrightarrow> joinConsulServer cfg str ev m port s = Some s"
  by (simp add: joinConsulServer_def)

theorem joinConsulServer_self_witness:
  "joinConsulServer \<lparr>Datacenter = ''dc1'', NodeName = ''n1''\<rparr> (\<lambda>a. ''x'')
      \<lparr>Peers_reply = (\<lambda>k. Inl ''down''), Members_reply = (\<lambda>k. []),
        AddPeer_reply = (\<lambda>k a. None), shutdown_closed = (\<lambda>k. False)\<rparr>
      \<lparr>Name = ''n1'', Addr = [10, 0, 0, 1], Role = ''consul:dc1:8300'', Status = StatusAlive\<rparr>
      8300 empty_server = Some empty_server"
  using joinConsulServer_self
    [of "\<lparr>Name = ''n1'', Addr = [10, 0, 0, 1], Role = ''consul:dc1:8300'', Status = StatusAlive\<rparr>"
        "\<lparr>Datacenter = ''dc1'', NodeName = ''n1''\<rparr>"]
  by simp

text \<open>
  C7. When the candidate is not this node and the first read of the peer list succeeds
  with a list holding an address that renders as the candidate's does (a structurally
  equal address does), the task returns after that one read; no add-peer request has been
  issued and the membership snapshot has not been read.
\<close>

theorem joinConsulServer_already_peer:
  assumes "Name m \<noteq> NodeName cfg"
    and "Peers_reply ev (peer_reads s) = Inr peers"
    and "\<exists>p\<in>set peers. str p = str \<lparr>IP = Addr m, Port = port\<rparr>"
  shows "joinConsulServer cfg str ev m port s = Some (s\<lparr>peer_reads := peer_reads s + 1\<rparr>)"
proof -
  have "addr_known str \<lparr>IP = Addr m, Port = port\<rparr> peers"
    using assms(3) by (simp add: addr_known_iff)
  then have "join_CHECK str ev m \<lparr>IP = Addr m, Port = port\<rparr> s
               = Some (s\<lparr>peer_reads := peer_reads s + 1\<rparr>)"
    by (subst join_CHECK.simps) (simp add: assms(2))
  then show ?thesis using assms(1) by (simp add: joinConsulServer_def)
qed

theorem joinConsulServer_already_peer_witness:
  "joinConsulServer \<lparr>Datacenter = ''dc1'', NodeName = ''n1''\<rparr> raw_String
      \<lparr>Peers_reply = (\<lambda>k. Inr [\<lparr>IP = [10, 0, 0, 1], Port = 8300\<rparr>, \<lparr>IP = [10, 0, 0, 2], Port = 8300\<rparr>]),
        Members_reply = (\<lambda>k. []),
        AddPeer_reply = (\<lambda>k a. None), shutdown_closed = (\<lambda>k. False)\<rparr>
      \<lparr>Name = ''n2'', Addr = [10, 0, 0, 2], Role = ''consul:dc1:8300'', Status = StatusAlive\<rparr>
      8300 empty_server = Some (empty_server\<lparr>peer_reads := 1\<rparr>)"
  using joinConsulServer_already_peer
    [of "\<lparr>Name = ''n2'', Addr = [10, 0, 0, 2], Role = ''consul:dc1:8300'', Status = StatusAlive\<rparr>"
        "\<lparr>Datacenter = ''dc1'', NodeName = ''n1''\<rparr>"
        "\<lparr>Peers_reply = (\<lambda>k. Inr [\<lparr>IP = [10, 0, 0, 1], Port = 8300\<rparr>, \<lparr>IP = [10, 0, 0, 2], Port = 8300\<rparr>]),
        Members_reply = (\<lambda>k. []),
        AddPeer_reply = (\<lambda>k a. None), shutdown_closed = (\<lambda>k. False)\<rparr>"
        empty_server
        "[\<lparr>IP = [10, 0, 0, 1], Port = 8300\<rparr>, \<lparr>IP = [10, 0, 0, 2], Port = 8300\<rparr>]"
        raw_String 8300]
  by (simp add: empty_server_def)

text \<open>
  C9. \<open>memberStatus\<close> returns \<open>StatusNone\<close> when no member has the name, and the status of
  the first member that has it otherwise. So a task whose candidate is not this node,
  whose first read of the peer list succeeds without a match and whose candidate is absent
  from the membership snapshot returns after the two reads, with no add-peer request.
\<close>

theorem joinConsulServer_not_in_snapshot:
  "((\<forall>x\<in>set members. Name x \<noteq> name) \<longrightarrow> memberStatus members name = StatusNone) \<and>
   ((\<forall>x\<in>set pre. Name x \<noteq> Name m') \<longrightarrow> memberStatus (pre @ m' # post) (Name m') = Status m') \<and>
   (Name m \<noteq> NodeName cfg \<and> Peers_reply ev (peer_reads s) = Inr peers \<and>
    (\<forall>p\<in>set peers. str p \<noteq> str \<lparr>IP = Addr m, Port = port\<rparr>) \<and>
    (\<forall>x\<in>set (Members_reply ev (member_reads s)). Name x \<noteq> Name m) \<longrightarrow>
      joinConsulServer cfg str ev m port s
        = Some (s\<lparr>peer_reads := peer_reads s + 1, member_reads := member_reads s + 1\<rparr>))"
proof (intro conjI impI)
  assume "\<forall>x\<in>set members. Name x \<noteq> name"
  then show "memberStatus members name = StatusNone" by (rule memberStatus_absent)
next
  assume "\<forall>x\<in>set pre. Name x \<noteq> Name m'"
  then show "memberStatus (pre @ m' # post) (Name m') = Status m'" by (rule memberStatus_first)
next
  assume a: "Name m \<noteq> NodeName cfg \<and> Peers_reply ev (peer_reads s) = Inr peers \<and>
    (\<forall>p\<in>set peers. str p \<noteq> str \<lparr>IP = Addr m, Port = port\<rparr>) \<and>
    (\<forall>x\<in>set (Members_reply ev (member_reads s)). Name x \<noteq> Name m)"
  then have k: "\<not> addr_known str \<lparr>IP = Addr m, Port = port\<rparr> peers"
    by (simp add: addr_known_iff)
  from a have st: "memberStatus (Members_reply ev (member_reads s)) (Name m) = StatusNone"
    by (simp add: memberStatus_absent)
  have "join_CHECK str ev m \<lparr>IP = Addr m, Port = port\<rparr> s
          = Some (s\<lparr>peer_reads := peer_reads s + 1, member_reads := member_reads s + 1\<rparr>)"
    using a k st by (subst join_CHECK.simps) simp
  then show "joinConsulServer cfg str ev m port s
        = Some (s\<lparr>peer_reads := peer_reads s + 1, member_reads := member_reads s + 1\<rparr>)"
    using a by (simp add: joinConsulServer_def)
qed

theorem joinConsulServer_not_in_snapshot_witness:
  "memberStatus [] ''n2'' = StatusNone \<and>
   memberStatus
     [\<lparr>Name = ''n1'', Addr = [10, 0, 0, 1], Role = ''consul:dc1:8300'', Status = StatusAlive\<rparr>,
      \<lparr>Name = ''n2'', Addr = [10, 0, 0, 2], Role = ''consul:dc1:8300'', Status = StatusFailed\<rparr>,
      \<lparr>Name = ''n2'', Addr = [10, 0, 0, 3], Role = ''consul:dc1:8300'', Status = StatusAlive\<rparr>]
     ''n2'' = StatusFailed \<and>
   joinConsulServer \<lparr>Datacenter = ''dc1'', NodeName = ''n1''\<rparr> raw_String
      \<lparr>Peers_reply = (\<lambda>k. Inr [\<lparr>IP = [10, 0, 0, 1], Port = 8300\<rparr>]),
        Members_reply = (\<lambda>k. [\<lparr>Name = ''n1'', Addr = [10, 0, 0, 1], Role = ''consul:dc1:8300'', Status = StatusAlive\<rparr>]),
        AddPeer_reply = (\<lambda>k a. None), shutdown_closed = (\<lambda>k. False)\<rparr>
      \<lparr>Name = ''n2'', Addr = [10, 0, 0, 2], Role = ''consul:dc1:8300'', Status = StatusAlive\<rparr>
      8300 empty_server = Some (empty_server\<lparr>peer_reads := 1, member_reads := 1\<rparr>)"
  using joinConsulServer_not_in_snapshot
    [of "[]" "''n2''"
        "[\<lparr>Name = ''n1'', Addr = [10, 0, 0, 1], Role = ''consul:dc1:8300'', Status = StatusAlive\<rparr>]"
        "\<lparr>Name = ''n2'', Addr = [10, 0, 0, 2], Role = ''consul:dc1:8300'', Status = StatusFailed\<rparr>"
        "[\<lparr>Name = ''n2'', Addr = [10, 0, 0, 3], Role = ''consul:dc1:8300'', Status = StatusAlive\<rparr>]"
        "\<lparr>Name = ''n2'', Addr = [10, 0, 0, 2], Role = ''consul:dc1:8300'', Status = StatusAlive\<rparr>"
        "\<lparr>Datacenter = ''dc1'', NodeName = ''n1''\<rparr>"
        "\<lparr>Peers_reply = (\<lambda>k. Inr [\<lparr>IP = [10, 0, 0, 1], Port = 8300\<rparr>]),
        Members_reply = (\<lambda>k. [\<lparr>Name = ''n1'', Addr = [10, 0, 0, 1], Role = ''consul:dc1:8300'', Status = StatusAlive\<rparr>]),
        AddPeer_reply = (\<lambda>k a. None), shutdown_closed = (\<lambda>k. False)\<rparr>"
        empty_server
        "[\<lparr>IP = [10, 0, 0, 1], Port = 8300\<rparr>]"
        raw_String 8300]
  by (simp add: empty_server_def raw_String_def)

section \<open>Properties of the local view\<close>

lemma localJoin_append:
  "localJoin cfg (xs @ ys) s =
     (case localJoin cfg xs s of Inl e \<Rightarrow> Inl e | Inr s' \<Rightarrow> localJoin cfg ys s')"
  by (induction xs arbitrary: s) (auto split: sum.splits)

text \<open>
  C8. In a local join event, a member that classifies as a participant of a site other
  than this node's own adds exactly one diagnostic to the log and nothing else: no task is
  launched for it, no add-peer request is recorded, and the rest of the event is processed
  from that state. The classification itself is participant.
\<close>

theorem localJoin_wrong_site:
  assumes "isConsulServer m s1 = Inr ((True, dc, port), s1)"
    and "dc \<noteq> Datacenter cfg"
    and "localJoin cfg pre s = Inr s1"
  shows "localJoin cfg (pre @ [m]) s
           = Inr (s1\<lparr>logs := logs s1 @ [WrongCluster (Name m) dc]\<rparr>) \<and>
         localJoin cfg (pre @ m # post) s
           = localJoin cfg post (s1\<lparr>logs := logs s1 @ [WrongCluster (Name m) dc]\<rparr>)"
proof -
  have "localJoin_member cfg m s1 = Inr (s1\<lparr>logs := logs s1 @ [WrongCluster (Name m) dc]\<rparr>)"
    using assms(1,2) by (simp add: localJoin_member_def)
  then show ?thesis
    using assms(3) by (simp add: localJoin_append)
qed

theorem localJoin_wrong_site_witness:
  "isConsulServer
     \<lparr>Name = ''n2'', Addr = [10, 0, 0, 2], Role = ''consul:dc2:8300'', Status = StatusAlive\<rparr>
     empty_server = Inr ((True, ''dc2'', 8300), empty_server) \<and>
   localJoin \<lparr>Datacenter = ''dc1'', NodeName = ''n1''\<rparr>
     [\<lparr>Name = ''n2'', Addr = [10, 0, 0, 2], Role = ''consul:dc2:8300'', Status = StatusAlive\<rparr>]
     empty_server = Inr (empty_server\<lparr>logs := [WrongCluster ''n2'' ''dc2'']\<rparr>)"
proof -
  have c: "isConsulServer
     \<lparr>Name = ''n2'', Addr = [10, 0, 0, 2], Role = ''consul:dc2:8300'', Status = StatusAlive\<rparr>
     empty_server = Inr ((True, ''dc2'', 8300), empty_server)"
    by (simp add: isConsulServer_def HasPrefix_def SplitN_def index_def numeral_2_eq_2
        Atoi_def is_digit_def digit_val_def intSize_def)
  have d: "''dc2'' \<noteq> Datacenter \<lparr>Datacenter = ''dc1'', NodeName = ''n1''\<rparr>" by simp
  have p: "localJoin \<lparr>Datacenter = ''dc1'', NodeName = ''n1''\<rparr> [] empty_server = Inr empty_server"
    by simp
  from localJoin_wrong_site [OF c d p, of "[]"] c show ?thesis
    by (simp add: empty_server_def)
qed

section \<open>Properties of the remote topology directory\<close>

lemma remove_loop_cases:
  "(\<forall>j. i \<le> j \<and> j < n \<longrightarrow> str (xs ! j) \<noteq> str addr) \<and>
     remove_loop str addr xs i n = (xs, n) \<or>
   (\<exists>k. i \<le> k \<and> k < n \<and> str (xs ! k) = str addr \<and>
        remove_loop str addr xs i n = (take (n - 1) (xs[k := xs ! (n - 1)]), n - 1))"
proof (induction str addr xs i n rule: remove_loop.induct)
  case (1 str addr existing i n)
  show ?case
  proof (cases "i < n")
    case False
    then have "remove_loop str addr existing i n = (existing, n)"
      by (subst remove_loop.simps) simp
    with False show ?thesis by auto
  next
    case True
    show ?thesis
    proof (cases "str (existing ! i) = str addr")
      case True
      with \<open>i < n\<close>
      have "remove_loop str addr existing i n
              = (take (n - 1) (existing[i := existing ! (n - 1)]), n - 1)"
        by (subst remove_loop.simps) simp
      with True \<open>i < n\<close> show ?thesis by auto
    next
      case False
      with \<open>i < n\<close>
      have eq: "remove_loop str addr existing i n = remove_loop str addr existing (i + 1) n"
        by (subst remove_loop.simps) simp
      from "1.IH" [OF \<open>i < n\<close> False] show ?thesis
      proof (elim disjE exE conjE)
        assume a: "\<forall>j. i + 1 \<le> j \<and> j < n \<longrightarrow> str (existing ! j) \<noteq> str addr"
          and r: "remove_loop str addr existing (i + 1) n = (existing, n)"
        have "\<forall>j. i \<le> j \<and> j < n \<longrightarrow> str (existing ! j) \<noteq> str addr"
        proof (intro allI impI)
          fix j assume "i \<le> j \<and> j < n"
          then show "str (existing ! j) \<noteq> str addr"
            using a False by (cases "j = i") auto
        qed
        with r show ?thesis by (simp add: eq)
      next
        fix k
        assume "i + 1 \<le> k" "k < n" "str (existing ! k) = str addr"
          "remove_loop str addr existing (i + 1) n
             = (take (n - 1) (existing[k := existing ! (n - 1)]), n - 1)"
        then show ?thesis unfolding eq by (metis Suc_leD Suc_eq_plus1)
      qed
    qed
  qed
qed

lemma swap_remove_distinct:
  assumes "distinct (map f xs)" "k < length xs"
  shows "distinct (map f (take (length xs - 1) (xs[k := xs ! (length xs - 1)])))"
  using assms
  by (auto simp: distinct_conv_nth nth_list_update)

lemma isConsulServer_dir:
  "isConsulServer m s = Inr (r, s1) \<Longrightarrow> remoteConsuls s1 = remoteConsuls s"
  by (auto simp: isConsulServer_def Let_def split: if_splits sum.splits)

lemma dir_inv_map_index:
  "dir_inv str d \<Longrightarrow> distinct (map str (map_index d dc))"
  by (auto simp: dir_inv_def map_index_def split: option.splits)

lemma dir_inv_update:
  "dir_inv str d \<Longrightarrow> l \<noteq> [] \<Longrightarrow> distinct (map str l) \<Longrightarrow> dir_inv str (d(dc \<mapsto> l))"
  by (simp add: dir_inv_def)

lemma dir_inv_delete: "dir_inv str d \<Longrightarrow> dir_inv str (d(dc := None))"
  by (simp add: dir_inv_def)

lemma remoteJoin_member_inv:
  assumes "dir_inv str (remoteConsuls s)" "remoteJoin_member str m s = Inr s'"
  shows "dir_inv str (remoteConsuls s')"
proof (cases "isConsulServer m s")
  case (Inl e)
  with assms(2) show ?thesis by (simp add: remoteJoin_member_def)
next
  case (Inr r)
  obtain ok dc port s1 where r: "r = ((ok, dc, port), s1)" by (metis prod.exhaust)
  with Inr have c: "isConsulServer m s = Inr ((ok, dc, port), s1)" by simp
  have d: "remoteConsuls s1 = remoteConsuls s" using c by (rule isConsulServer_dir)
  show ?thesis
  proof (cases "ok \<and> \<not> addr_known str \<lparr>IP = Addr m, Port = port\<rparr> (map_index (remoteConsuls s) dc)")
    case False
    with assms c d show ?thesis
      by (auto simp: remoteJoin_member_def Let_def split: if_splits)
  next
    case True
    then have nk: "str \<lparr>IP = Addr m, Port = port\<rparr> \<notin> str ` set (map_index (remoteConsuls s) dc)"
      by (auto simp: addr_known_iff)
    have "distinct (map str (map_index (remoteConsuls s) dc @ [\<lparr>IP = Addr m, Port = port\<rparr>]))"
      using dir_inv_map_index [OF assms(1), of dc] nk by simp
    then have "dir_inv str ((remoteConsuls s)(dc \<mapsto> map_index (remoteConsuls s) dc @ [\<lparr>IP = Addr m, Port = port\<rparr>]))"
      using assms(1) by (intro dir_inv_update) simp_all
    with True assms(2) c d show ?thesis
      by (auto simp: remoteJoin_member_def Let_def)
  qed
qed

lemma remoteFailed_member_inv:
  assumes "dir_inv str (remoteConsuls s)" "remoteFailed_member str m s = Inr s'"
  shows "dir_inv str (remoteConsuls s')"
proof (cases "isConsulServer m s")
  case (Inl e)
  with assms(2) show ?thesis by (simp add: remoteFailed_member_def)
next
  case (Inr r)
  obtain ok dc port s1 where r: "r = ((ok, dc, port), s1)" by (metis prod.exhaust)
  with Inr have c: "isConsulServer m s = Inr ((ok, dc, port), s1)" by simp
  have d: "remoteConsuls s1 = remoteConsuls s" using c by (rule isConsulServer_dir)
  show ?thesis
  proof (cases ok)
    case False
    with assms c d show ?thesis by (simp add: remoteFailed_member_def)
  next
    case True
    define existing where "existing = map_index (remoteConsuls s) dc"
    define addr where "addr = \<lparr>IP = Addr m, Port = port\<rparr>"
    obtain l n where rl: "remove_loop str addr existing 0 (length existing) = (l, n)"
      by (metis prod.exhaust)
    have s': "remoteConsuls s' = (if n = 0 then (remoteConsuls s)(dc := None) else (remoteConsuls s)(dc \<mapsto> l))"
      using assms(2) c d True rl
      by (auto simp: remoteFailed_member_def Let_def existing_def addr_def)
    have dist: "distinct (map str existing)"
      unfolding existing_def using assms(1) by (rule dir_inv_map_index)
    have "n = length l \<and> distinct (map str l)"
      using remove_loop_cases [where str = str and addr = addr and xs = existing and i = 0 and n = "length existing"]
    proof (elim disjE exE conjE)
      assume "remove_loop str addr existing 0 (length existing) = (existing, length existing)"
      with rl dist show ?thesis by auto
    next
      fix k
      assume k: "k < length existing"
        and e: "remove_loop str addr existing 0 (length existing)
                  = (take (length existing - 1) (existing[k := existing ! (length existing - 1)]),
                     length existing - 1)"
      from swap_remove_distinct [OF dist k] e rl show ?thesis by auto
    qed
    then show ?thesis
      unfolding s' using assms(1) by (auto intro: dir_inv_update dir_inv_delete)
  qed
qed

lemma remoteJoin_inv:
  "dir_inv str (remoteConsuls s) \<Longrightarrow> remoteJoin str ms s = Inr s' \<Longrightarrow> dir_inv str (remoteConsuls s')"
  by (induction ms arbitrary: s) (auto split: sum.splits dest: remoteJoin_member_inv)

lemma remoteFailed_inv:
  "dir_inv str (remoteConsuls s) \<Longrightarrow> remoteFailed str ms s = Inr s' \<Longrightarrow> dir_inv str (remoteConsuls s')"
  by (induction ms arbitrary: s) (auto split: sum.splits dest: remoteFailed_member_inv)

lemma wanEvent_inv:
  "dir_inv str (remoteConsuls s) \<Longrightarrow> wanEvent str e s = Inr s' \<Longrightarrow> dir_inv str (remoteConsuls s')"
  by (cases e) (auto dest: remoteJoin_inv remoteFailed_inv)

lemma wanEventHandler_inv:
  "dir_inv str (remoteConsuls s) \<Longrightarrow> wanEventHandler str es s = Inr s' \<Longrightarrow> dir_inv str (remoteConsuls s')"
  by (induction es arbitrary: s) (auto split: sum.splits dest: wanEvent_inv)

lemma isConsulServer_True_any:
  "isConsulServer m s = Inr ((True, dc, port), s1) \<Longrightarrow> isConsulServer m t = Inr ((True, dc, port), t)"
  by (auto simp: isConsulServer_def Let_def split: if_splits sum.splits)

lemma isConsulServer_False_any:
  "isConsulServer m s = Inr ((False, dc, port), s1) \<Longrightarrow>
   \<exists>t1. isConsulServer m t = Inr ((False, dc, port), t1) \<and> remoteConsuls t1 = remoteConsuls t"
  by (auto simp: isConsulServer_def Let_def split: if_splits sum.splits)

lemma isConsulServer_ok_state:
  "isConsulServer m s = Inr ((True, dc, port), s1) \<Longrightarrow> s1 = s"
  by (auto simp: isConsulServer_def Let_def split: if_splits sum.splits)

lemma map_index_upd:
  "map_index (d(dc0 \<mapsto> l)) dc = (if dc = dc0 then l else map_index d dc)"
  by (simp add: map_index_def)

lemma remoteJoin_member_dir:
  assumes "remoteJoin_member str m s = Inr s'"
  shows "(\<exists>dc port s1. isConsulServer m s = Inr ((False, dc, port), s1) \<and>
            remoteConsuls s' = remoteConsuls s) \<or>
         (\<exists>dc port. isConsulServer m s = Inr ((True, dc, port), s) \<and>
            remoteConsuls s' =
              (if addr_known str \<lparr>IP = Addr m, Port = port\<rparr> (map_index (remoteConsuls s) dc)
               then remoteConsuls s
               else (remoteConsuls s)
                      (dc \<mapsto> map_index (remoteConsuls s) dc @ [\<lparr>IP = Addr m, Port = port\<rparr>])))"
proof (cases "isConsulServer m s")
  case (Inl e)
  with assms show ?thesis by (simp add: remoteJoin_member_def)
next
  case (Inr r)
  obtain ok dc port s1 where "r = ((ok, dc, port), s1)" by (metis prod.exhaust)
  with Inr have c: "isConsulServer m s = Inr ((ok, dc, port), s1)" by simp
  have d: "remoteConsuls s1 = remoteConsuls s" using c by (rule isConsulServer_dir)
  show ?thesis
  proof (cases ok)
    case False
    with assms c d show ?thesis by (auto simp: remoteJoin_member_def)
  next
    case True
    with c have "s1 = s" by (auto dest: isConsulServer_ok_state)
    with True assms c show ?thesis
      by (auto simp: remoteJoin_member_def Let_def split: if_splits)
  qed
qed

lemma remoteJoin_member_known_mono:
  assumes "remoteJoin_member str m s = Inr s'"
    and "addr_known str a (map_index (remoteConsuls s) dc)"
  shows "addr_known str a (map_index (remoteConsuls s') dc)"
  using remoteJoin_member_dir [OF assms(1)] assms(2)
  by (auto simp: addr_known_iff map_index_upd split: if_splits)

lemma remoteJoin_known_mono:
  "remoteJoin str ms s = Inr s' \<Longrightarrow> addr_known str a (map_index (remoteConsuls s) dc) \<Longrightarrow>
   addr_known str a (map_index (remoteConsuls s') dc)"
  by (induction ms arbitrary: s) (auto split: sum.splits dest: remoteJoin_member_known_mono)

lemma remoteJoin_member_known_after:
  assumes "remoteJoin_member str m s = Inr s'"
    and "isConsulServer m t = Inr ((True, dc, port), t)"
  shows "addr_known str \<lparr>IP = Addr m, Port = port\<rparr> (map_index (remoteConsuls s') dc)"
proof -
  have c: "isConsulServer m s = Inr ((True, dc, port), s)"
    using assms(2) by (rule isConsulServer_True_any)
  from remoteJoin_member_dir [OF assms(1)] c show ?thesis
    by (auto simp: addr_known_iff map_index_upd split: if_splits)
qed

lemma remoteJoin_covers:
  "remoteJoin str ms s = Inr s' \<Longrightarrow> m \<in> set ms \<Longrightarrow>
   isConsulServer m t = Inr ((True, dc, port), t) \<Longrightarrow>
   addr_known str \<lparr>IP = Addr m, Port = port\<rparr> (map_index (remoteConsuls s') dc)"
proof (induction ms arbitrary: s)
  case Nil
  then show ?case by simp
next
  case (Cons x xs)
  from Cons.prems(1) obtain s1 where
    x: "remoteJoin_member str x s = Inr s1" and xs: "remoteJoin str xs s1 = Inr s'"
    by (auto split: sum.splits)
  show ?case
  proof (cases "m = x")
    case True
    with x Cons.prems(3)
    have "addr_known str \<lparr>IP = Addr m, Port = port\<rparr> (map_index (remoteConsuls s1) dc)"
      by (auto intro: remoteJoin_member_known_after)
    with xs show ?thesis by (rule remoteJoin_known_mono)
  next
    case False
    with Cons.prems(2) have "m \<in> set xs" by simp
    with Cons.IH xs Cons.prems(3) show ?thesis by blast
  qed
qed

lemma remoteJoin_member_again:
  assumes "remoteJoin_member str m s0 = Inr s0'"
    and "\<forall>dc port. isConsulServer m s = Inr ((True, dc, port), s) \<longrightarrow>
           addr_known str \<lparr>IP = Addr m, Port = port\<rparr> (map_index (remoteConsuls s) dc)"
  shows "\<exists>s'. remoteJoin_member str m s = Inr s' \<and> remoteConsuls s' = remoteConsuls s"
  using remoteJoin_member_dir [OF assms(1)]
proof (elim disjE exE conjE)
  fix dc port s1
  assume "isConsulServer m s0 = Inr ((False, dc, port), s1)"
  from isConsulServer_False_any [OF this, of s]
  show ?thesis by (auto simp: remoteJoin_member_def)
next
  fix dc port
  assume "isConsulServer m s0 = Inr ((True, dc, port), s0)"
  then have c: "isConsulServer m s = Inr ((True, dc, port), s)"
    by (rule isConsulServer_True_any)
  with assms(2) have "addr_known str \<lparr>IP = Addr m, Port = port\<rparr> (map_index (remoteConsuls s) dc)"
    by simp
  with c show ?thesis by (simp add: remoteJoin_member_def)
qed

lemma remoteJoin_steps:
  "remoteJoin str ms s = Inr s' \<Longrightarrow> m \<in> set ms \<Longrightarrow> \<exists>s0 s0'. remoteJoin_member str m s0 = Inr s0'"
  by (induction ms arbitrary: s) (auto split: sum.splits)

lemma remoteJoin_again:
  assumes "\<forall>m\<in>set ms. \<exists>s0 s0'. remoteJoin_member str m s0 = Inr s0'"
    and "\<forall>m\<in>set ms. \<forall>dc port. isConsulServer m s = Inr ((True, dc, port), s) \<longrightarrow>
           addr_known str \<lparr>IP = Addr m, Port = port\<rparr> (map_index (remoteConsuls s) dc)"
  shows "\<exists>s'. remoteJoin str ms s = Inr s' \<and> remoteConsuls s' = remoteConsuls s"
  using assms
proof (induction ms arbitrary: s)
  case Nil
  then show ?case by simp
next
  case (Cons x xs)
  from Cons.prems obtain s1 where
    x: "remoteJoin_member str x s = Inr s1" and d: "remoteConsuls s1 = remoteConsuls s"
    using remoteJoin_member_again [of str x _ _ s] by (metis list.set_intros(1))
  have "\<forall>m\<in>set xs. \<forall>dc port. isConsulServer m s1 = Inr ((True, dc, port), s1) \<longrightarrow>
           addr_known str \<lparr>IP = Addr m, Port = port\<rparr> (map_index (remoteConsuls s1) dc)"
    using Cons.prems(2) d by (auto dest: isConsulServer_True_any [where t = s])
  with Cons.IH [of s1] Cons.prems(1) obtain s' where
    "remoteJoin str xs s1 = Inr s'" "remoteConsuls s' = remoteConsuls s1"
    by auto
  with x d show ?case by simp
qed

lemma addr_known_image: "addr_known str addr l \<longleftrightarrow> str addr \<in> str ` set l"
  by (induction l) auto

lemma filter_unique:
  "distinct (map f l) \<Longrightarrow> x \<in> f ` set l \<Longrightarrow> length (filter (\<lambda>e. f e = x) l) = 1"
proof (induction l)
  case Nil
  then show ?case by simp
next
  case (Cons a l)
  show ?case
  proof (cases "f a = x")
    case True
    from Cons.prems(1) have "f a \<notin> f ` set l" by simp
    with True have "\<forall>e\<in>set l. f e \<noteq> x" by blast
    then have "filter (\<lambda>e. f e = x) l = []"
      by (simp add: filter_empty_conv)
    with True show ?thesis by simp
  next
    case False
    with Cons show ?thesis by auto
  qed
qed

lemma remove_loop_from_start:
  "str addr \<notin> str ` set xs \<and> remove_loop str addr xs 0 (length xs) = (xs, length xs) \<or>
   (\<exists>k. k < length xs \<and> str (xs ! k) = str addr \<and>
        remove_loop str addr xs 0 (length xs)
          = (take (length xs - 1) (xs[k := xs ! (length xs - 1)]), length xs - 1))"
  using remove_loop_cases [where str = str and addr = addr and xs = xs and i = 0 and n = "length xs"]
proof (elim disjE exE conjE)
  assume a: "\<forall>j. 0 \<le> j \<and> j < length xs \<longrightarrow> str (xs ! j) \<noteq> str addr"
    and r: "remove_loop str addr xs 0 (length xs) = (xs, length xs)"
  from a have "str addr \<notin> str ` set xs"
    by (metis imageE in_set_conv_nth le0)
  with r show ?thesis by simp
next
  fix k
  assume "k < length xs" "str (xs ! k) = str addr"
    "remove_loop str addr xs 0 (length xs)
       = (take (length xs - 1) (xs[k := xs ! (length xs - 1)]), length xs - 1)"
  then show ?thesis by blast
qed

lemma swap_remove_image:
  assumes "distinct (map f xs)" "k < length xs"
  shows "f ` set (take (length xs - 1) (xs[k := xs ! (length xs - 1)])) = f ` set xs - {f (xs ! k)}"
proof -
  from assms(2) have "xs \<noteq> []" by auto
  then obtain ys z where xs: "xs = ys @ [z]" by (metis rev_exhaust)
  from assms(1) have dy: "distinct ys" and inj: "inj_on f (set ys)" and z: "f z \<notin> f ` set ys"
    by (auto simp: xs distinct_map)
  show ?thesis
  proof (cases "k = length ys")
    case True
    then show ?thesis using z by (auto simp: xs)
  next
    case False
    with assms(2) have k: "k < length ys" by (simp add: xs)
    have "take (length xs - 1) (xs[k := xs ! (length xs - 1)]) = ys[k := z]"
      using k by (simp add: xs list_update_append)
    moreover have "set (ys[k := z]) = insert z (set ys - {ys ! k})"
      using dy k by (rule set_update_distinct)
    moreover have "f ` (set ys - {ys ! k}) = f ` set ys - {f (ys ! k)}"
      using inj k by (auto simp: inj_on_def)
    moreover have "f z \<noteq> f (ys ! k)" using z k by auto
    ultimately show ?thesis
      using k by (auto simp: xs nth_append)
  qed
qed

lemma map_index_delete:
  "map_index (d(dc0 := None)) dc = (if dc = dc0 then [] else map_index d dc)"
  by (simp add: map_index_def)

lemma remoteFailed_member_strs:
  assumes "dir_inv str (remoteConsuls s)" "remoteFailed_member str m s = Inr s'"
  shows "(\<exists>dc port s1. isConsulServer m s = Inr ((False, dc, port), s1) \<and>
            remoteConsuls s' = remoteConsuls s) \<or>
         (\<exists>dc port. isConsulServer m s = Inr ((True, dc, port), s) \<and>
            (\<forall>dc'. str ` set (map_index (remoteConsuls s') dc') =
               (if dc' = dc
                then str ` set (map_index (remoteConsuls s) dc) - {str \<lparr>IP = Addr m, Port = port\<rparr>}
                else str ` set (map_index (remoteConsuls s) dc'))))"
proof (cases "isConsulServer m s")
  case (Inl e)
  with assms(2) show ?thesis by (simp add: remoteFailed_member_def)
next
  case (Inr r)
  obtain ok dc port s1 where "r = ((ok, dc, port), s1)" by (metis prod.exhaust)
  with Inr have c: "isConsulServer m s = Inr ((ok, dc, port), s1)" by simp
  have d: "remoteConsuls s1 = remoteConsuls s" using c by (rule isConsulServer_dir)
  show ?thesis
  proof (cases ok)
    case False
    with assms c d show ?thesis by (auto simp: remoteFailed_member_def)
  next
    case True
    with c have s1: "s1 = s" by (auto dest: isConsulServer_ok_state)
    define existing where "existing = map_index (remoteConsuls s) dc"
    define addr where "addr = \<lparr>IP = Addr m, Port = port\<rparr>"
    obtain l n where rl: "remove_loop str addr existing 0 (length existing) = (l, n)"
      by (metis prod.exhaust)
    have s': "remoteConsuls s' = (if n = 0 then (remoteConsuls s)(dc := None) else (remoteConsuls s)(dc \<mapsto> l))"
      using assms(2) c d True rl
      by (auto simp: remoteFailed_member_def Let_def existing_def addr_def)
    have dist: "distinct (map str existing)"
      unfolding existing_def using assms(1) by (rule dir_inv_map_index)
    have ln: "n = length l \<and> str ` set l = str ` set existing - {str addr}"
      using remove_loop_from_start [of str addr existing]
    proof (elim disjE exE conjE)
      assume "str addr \<notin> str ` set existing"
        "remove_loop str addr existing 0 (length existing) = (existing, length existing)"
      with rl show ?thesis by auto
    next
      fix k
      assume k: "k < length existing" and ma: "str (existing ! k) = str addr"
        and e: "remove_loop str addr existing 0 (length existing)
                  = (take (length existing - 1) (existing[k := existing ! (length existing - 1)]),
                     length existing - 1)"
      from swap_remove_image [OF dist k] ma e rl show ?thesis by auto
    qed
    have "\<forall>dc'. str ` set (map_index (remoteConsuls s') dc') =
               (if dc' = dc
                then str ` set (map_index (remoteConsuls s) dc) - {str \<lparr>IP = Addr m, Port = port\<rparr>}
                else str ` set (map_index (remoteConsuls s) dc'))"
      using ln unfolding s' existing_def [symmetric] addr_def [symmetric]
      by (auto simp: map_index_upd map_index_delete)
    moreover have "isConsulServer m s = Inr ((True, dc, port), s)"
      using c True s1 by simp
    ultimately show ?thesis by blast
  qed
qed

lemma remoteFailed_strs:
  "dir_inv str (remoteConsuls s) \<Longrightarrow> remoteFailed str ms s = Inr s' \<Longrightarrow>
   str ` set (map_index (remoteConsuls s') dc) =
     str ` set (map_index (remoteConsuls s) dc) -
       {str \<lparr>IP = Addr m, Port = port\<rparr> | m port.
          m \<in> set ms \<and> isConsulServer m s0 = Inr ((True, dc, port), s0)}"
proof (induction ms arbitrary: s)
  case Nil
  then show ?case by simp
next
  case (Cons x xs)
  from Cons.prems(2) obtain s1 where
    x: "remoteFailed_member str x s = Inr s1" and xs: "remoteFailed str xs s1 = Inr s'"
    by (auto split: sum.splits)
  have inv1: "dir_inv str (remoteConsuls s1)"
    using Cons.prems(1) x by (rule remoteFailed_member_inv)
  note ih = Cons.IH [OF inv1 xs]
  from remoteFailed_member_strs [OF Cons.prems(1) x] show ?case
  proof (elim disjE exE conjE)
    fix dc0 port0 t
    assume c: "isConsulServer x s = Inr ((False, dc0, port0), t)"
      and d: "remoteConsuls s1 = remoteConsuls s"
    have "\<And>port. isConsulServer x s0 \<noteq> Inr ((True, dc, port), s0)"
      using c by (metis isConsulServer_True_any Inr_inject prod.inject)
    then have "{str \<lparr>IP = Addr m, Port = port\<rparr> | m port.
          m \<in> set (x # xs) \<and> isConsulServer m s0 = Inr ((True, dc, port), s0)}
        = {str \<lparr>IP = Addr m, Port = port\<rparr> | m port.
          m \<in> set xs \<and> isConsulServer m s0 = Inr ((True, dc, port), s0)}"
      by auto
    with ih d show ?thesis by simp
  next
    fix dc0 port0
    assume c: "isConsulServer x s = Inr ((True, dc0, port0), s)"
      and d: "\<forall>dc'. str ` set (map_index (remoteConsuls s1) dc') =
               (if dc' = dc0
                then str ` set (map_index (remoteConsuls s) dc0) - {str \<lparr>IP = Addr x, Port = port0\<rparr>}
                else str ` set (map_index (remoteConsuls s) dc'))"
    have c0: "isConsulServer x s0 = Inr ((True, dc0, port0), s0)"
      using c by (rule isConsulServer_True_any)
    show ?thesis
    proof (cases "dc = dc0")
      case True
      have "{str \<lparr>IP = Addr m, Port = port\<rparr> | m port.
          m \<in> set (x # xs) \<and> isConsulServer m s0 = Inr ((True, dc, port), s0)}
        = insert (str \<lparr>IP = Addr x, Port = port0\<rparr>) {str \<lparr>IP = Addr m, Port = port\<rparr> | m port.
          m \<in> set xs \<and> isConsulServer m s0 = Inr ((True, dc, port), s0)}"
        using c0 True by auto
      with ih d True show ?thesis by auto
    next
      case False
      have "{str \<lparr>IP = Addr m, Port = port\<rparr> | m port.
          m \<in> set (x # xs) \<and> isConsulServer m s0 = Inr ((True, dc, port), s0)}
        = {str \<lparr>IP = Addr m, Port = port\<rparr> | m port.
          m \<in> set xs \<and> isConsulServer m s0 = Inr ((True, dc, port), s0)}"
        using c0 False by auto
      with ih d False show ?thesis by simp
    qed
  qed
qed

lemma remoteFailed_all_named:
  assumes inv: "dir_inv str (remoteConsuls s)"
    and run: "remoteFailed str ms s = Inr s'"
    and named: "\<forall>a\<in>set (map_index (remoteConsuls s) dc). \<exists>m\<in>set ms. \<exists>port.
                  isConsulServer m s = Inr ((True, dc, port), s) \<and>
                  str a = str \<lparr>IP = Addr m, Port = port\<rparr>"
  shows "remoteConsuls s' dc = None"
proof -
  have "str ` set (map_index (remoteConsuls s') dc) = {}"
    unfolding remoteFailed_strs [OF inv run, of dc s] using named by fastforce
  then have e: "map_index (remoteConsuls s') dc = []" by simp
  have "dir_inv str (remoteConsuls s')" using inv run by (rule remoteFailed_inv)
  with e show ?thesis
    by (cases "remoteConsuls s' dc") (auto simp: dir_inv_def map_index_def)
qed

lemma dir_inv_empty: "dir_inv str (remoteConsuls empty_server)"
  by (simp add: dir_inv_def empty_server_def)

lemma SplitN_3: "SplitN s sep 3 = genSplit s sep (Suc (Suc 0))"
  by (simp add: SplitN_def numeral_2_eq_2)

lemmas evals = remoteJoin_member_def remoteFailed_member_def isConsulServer_def HasPrefix_def
  SplitN_3 index_def Atoi_def is_digit_def digit_val_def intSize_def
  empty_server_def map_index_def Let_def

text \<open>
  C2. After any sequence of wide-area events processed by \<open>wanEventHandler\<close> from the
  empty directory (join events through \<open>remoteJoin\<close>, fail and leave events through
  \<open>remoteFailed\<close>), every site key present has a non-empty address list without two
  equal addresses (not even two that render alike); and a fail or leave event that names
  every address the site still has leaves the site's key absent.
\<close>

theorem remote_directory_invariant:
  assumes "wanEventHandler str es empty_server = Inr s"
  shows "(\<forall>dc l. remoteConsuls s dc = Some l \<longrightarrow> l \<noteq> [] \<and> distinct l \<and> distinct (map str l)) \<and>
         (\<forall>ms e s' dc.
            (e = EventMemberFailed ms \<or> e = EventMemberLeave ms) \<and> wanEvent str e s = Inr s' \<and>
            (\<forall>a\<in>set (map_index (remoteConsuls s) dc). \<exists>m\<in>set ms. \<exists>port.
                isConsulServer m s = Inr ((True, dc, port), s) \<and>
                str a = str \<lparr>IP = Addr m, Port = port\<rparr>)
            \<longrightarrow> remoteConsuls s' dc = None)"
proof -
  have inv: "dir_inv str (remoteConsuls s)"
    using dir_inv_empty assms by (rule wanEventHandler_inv)
  have "l \<noteq> [] \<and> distinct l \<and> distinct (map str l)" if "remoteConsuls s dc = Some l" for dc l
    using inv that by (auto simp: dir_inv_def distinct_map)
  moreover
  have "remoteConsuls s' dc = None"
    if "e = EventMemberFailed ms \<or> e = EventMemberLeave ms" "wanEvent str e s = Inr s'"
      "\<forall>a\<in>set (map_index (remoteConsuls s) dc). \<exists>m\<in>set ms. \<exists>port.
                isConsulServer m s = Inr ((True, dc, port), s) \<and>
                str a = str \<lparr>IP = Addr m, Port = port\<rparr>"
    for ms e s' dc
  proof -
    from that(1,2) have "remoteFailed str ms s = Inr s'" by auto
    with inv show ?thesis using that(3) by (rule remoteFailed_all_named)
  qed
  ultimately show ?thesis by blast
qed

theorem remote_directory_invariant_witness:
  "map_sum id (\<lambda>s. remoteConsuls s ''dc1'')
     (wanEventHandler raw_String
        [EventMemberJoin
           [\<lparr>Name = ''n1'', Addr = [10, 0, 0, 1], Role = ''consul:dc1:8300'', Status = StatusAlive\<rparr>,
            \<lparr>Name = ''n2'', Addr = [10, 0, 0, 2], Role = ''consul:dc1:8300'', Status = StatusAlive\<rparr>],
         EventMemberLeave
           [\<lparr>Name = ''n2'', Addr = [10, 0, 0, 2], Role = ''consul:dc1:8300'', Status = StatusLeft\<rparr>]]
        empty_server)
     = Inr (Some [\<lparr>IP = [10, 0, 0, 1], Port = 8300\<rparr>]) \<and>
   distinct [\<lparr>IP = [10, 0, 0, 1], Port = 8300\<rparr>] \<and>
   map_sum id (\<lambda>s. remoteConsuls s ''dc1'')
     (wanEventHandler raw_String
        [EventMemberJoin
           [\<lparr>Name = ''n1'', Addr = [10, 0, 0, 1], Role = ''consul:dc1:8300'', Status = StatusAlive\<rparr>,
            \<lparr>Name = ''n2'', Addr = [10, 0, 0, 2], Role = ''consul:dc1:8300'', Status = StatusAlive\<rparr>],
         EventMemberLeave
           [\<lparr>Name = ''n2'', Addr = [10, 0, 0, 2], Role = ''consul:dc1:8300'', Status = StatusLeft\<rparr>],
         EventMemberFailed
           [\<lparr>Name = ''n1'', Addr = [10, 0, 0, 1], Role = ''consul:dc1:8300'', Status = StatusFailed\<rparr>]]
        empty_server)
     = Inr None"
proof -
  let ?a1 = "\<lparr>IP = [10, 0, 0, 1], Port = 8300\<rparr>"
  let ?a2 = "\<lparr>IP = [10, 0, 0, 2], Port = 8300\<rparr>"
  let ?m1 = "\<lparr>Name = ''n1'', Addr = [10, 0, 0, 1], Role = ''consul:dc1:8300'', Status = StatusAlive\<rparr>"
  let ?m2 = "\<lparr>Name = ''n2'', Addr = [10, 0, 0, 2], Role = ''consul:dc1:8300'', Status = StatusAlive\<rparr>"
  let ?m2' = "\<lparr>Name = ''n2'', Addr = [10, 0, 0, 2], Role = ''consul:dc1:8300'', Status = StatusLeft\<rparr>"
  let ?m1' = "\<lparr>Name = ''n1'', Addr = [10, 0, 0, 1], Role = ''consul:dc1:8300'', Status = StatusFailed\<rparr>"
  let ?s1 = "empty_server
       \<lparr>remoteConsuls := [''dc1'' \<mapsto> [?a1, ?a2]],
        logs := [AddingServer ''dc1'' ?a1, AddingServer ''dc1'' ?a2]\<rparr>"
  let ?s2 = "empty_server
       \<lparr>remoteConsuls := [''dc1'' \<mapsto> [?a1]],
        logs := [AddingServer ''dc1'' ?a1, AddingServer ''dc1'' ?a2, RemovingServer ''dc1'' ?a2]\<rparr>"
  let ?s3 = "empty_server
       \<lparr>remoteConsuls := Map.empty,
        logs := [AddingServer ''dc1'' ?a1, AddingServer ''dc1'' ?a2, RemovingServer ''dc1'' ?a2,
                 RemovingServer ''dc1'' ?a1]\<rparr>"
  have j: "remoteJoin raw_String [?m1, ?m2] empty_server = Inr ?s1"
    by (simp add: evals raw_String_def)
  have f: "remoteFailed raw_String [?m2'] ?s1 = Inr ?s2"
    by (simp add: evals raw_String_def remove_loop.simps)
  have g: "remoteFailed raw_String [?m1'] ?s2 = Inr ?s3"
    by (simp add: evals raw_String_def remove_loop.simps)
  have s: "wanEventHandler raw_String [EventMemberJoin [?m1, ?m2], EventMemberLeave [?m2']]
             empty_server = Inr ?s2"
    by (simp only: wanEventHandler.simps wanEvent.simps j f sum.case)
  have t: "wanEventHandler raw_String
             [EventMemberJoin [?m1, ?m2], EventMemberLeave [?m2'], EventMemberFailed [?m1']]
             empty_server = Inr ?s3"
    by (simp only: wanEventHandler.simps wanEvent.simps j f g sum.case)
  have c: "isConsulServer ?m1' ?s2 = Inr ((True, ''dc1'', 8300), ?s2)"
    by (simp add: evals)
  have d: "remoteConsuls ?s2 ''dc1'' = Some [?a1]"
    by (simp add: empty_server_def)
  from remote_directory_invariant [OF s]
  have a: "\<forall>dc l. remoteConsuls ?s2 dc = Some l \<longrightarrow> l \<noteq> [] \<and> distinct l \<and> distinct (map raw_String l)"
    and b: "\<forall>ms e s' dc.
            (e = EventMemberFailed ms \<or> e = EventMemberLeave ms) \<and> wanEvent raw_String e ?s2 = Inr s' \<and>
            (\<forall>a\<in>set (map_index (remoteConsuls ?s2) dc). \<exists>m\<in>set ms. \<exists>port.
                isConsulServer m ?s2 = Inr ((True, dc, port), ?s2) \<and>
                raw_String a = raw_String \<lparr>IP = Addr m, Port = port\<rparr>)
            \<longrightarrow> remoteConsuls s' dc = None"
    by blast+
  from a d have "distinct [?a1]" by blast
  moreover
  have "remoteConsuls ?s3 ''dc1'' = None"
  proof (rule b [rule_format, of "EventMemberFailed [?m1']" "[?m1']" ?s3 "''dc1''"], intro conjI)
    show "EventMemberFailed [?m1'] = EventMemberFailed [?m1'] \<or>
          EventMemberFailed [?m1'] = EventMemberLeave [?m1']" by simp
    show "wanEvent raw_String (EventMemberFailed [?m1']) ?s2 = Inr ?s3" using g by simp
    show "\<forall>a\<in>set (map_index (remoteConsuls ?s2) ''dc1''). \<exists>m\<in>set [?m1']. \<exists>port.
            isConsulServer m ?s2 = Inr ((True, ''dc1'', port), ?s2) \<and>
            raw_String a = raw_String \<lparr>IP = Addr m, Port = port\<rparr>"
      using c by (simp add: map_index_def empty_server_def)
  qed
  ultimately show ?thesis
    unfolding s t using d by simp
qed

text \<open>
  C5. From a directory without duplicates, once \<open>remoteJoin\<close> has processed a join
  event, processing the same event again leaves the directory as it is, and the address of
  every participant member of the event occurs exactly once in its site's list.
\<close>

theorem remoteJoin_idempotent:
  assumes "\<forall>dc l. remoteConsuls s dc = Some l \<longrightarrow> l \<noteq> [] \<and> distinct (map str l)"
    and "remoteJoin str ms s = Inr s1"
  shows "\<exists>s2. remoteJoin str ms s1 = Inr s2 \<and> remoteConsuls s2 = remoteConsuls s1 \<and>
           (\<forall>m\<in>set ms. \<forall>dc port. isConsulServer m s = Inr ((True, dc, port), s) \<longrightarrow>
              length (filter (\<lambda>e. str e = str \<lparr>IP = Addr m, Port = port\<rparr>)
                        (map_index (remoteConsuls s2) dc)) = 1)"
proof -
  have "dir_inv str (remoteConsuls s)"
    using assms(1) by (simp add: dir_inv_def)
  then have inv: "dir_inv str (remoteConsuls s1)"
    using assms(2) by (rule remoteJoin_inv)
  have np: "\<forall>m\<in>set ms. \<exists>s0 s0'. remoteJoin_member str m s0 = Inr s0'"
    using assms(2) by (blast dest: remoteJoin_steps)
  have cov: "\<forall>m\<in>set ms. \<forall>dc port. isConsulServer m s1 = Inr ((True, dc, port), s1) \<longrightarrow>
           addr_known str \<lparr>IP = Addr m, Port = port\<rparr> (map_index (remoteConsuls s1) dc)"
    using assms(2) by (blast intro: remoteJoin_covers)
  from remoteJoin_again [OF np cov] obtain s2 where
    s2: "remoteJoin str ms s1 = Inr s2" "remoteConsuls s2 = remoteConsuls s1" by blast
  have "length (filter (\<lambda>e. str e = str \<lparr>IP = Addr m, Port = port\<rparr>)
                        (map_index (remoteConsuls s2) dc)) = 1"
    if "m \<in> set ms" "isConsulServer m s = Inr ((True, dc, port), s)" for m dc port
  proof -
    have "addr_known str \<lparr>IP = Addr m, Port = port\<rparr> (map_index (remoteConsuls s1) dc)"
      using assms(2) that by (rule remoteJoin_covers)
    then have "str \<lparr>IP = Addr m, Port = port\<rparr> \<in> str ` set (map_index (remoteConsuls s2) dc)"
      by (simp add: addr_known_image s2(2))
    moreover have "distinct (map str (map_index (remoteConsuls s2) dc))"
      using inv by (simp add: s2(2) dir_inv_map_index)
    ultimately show ?thesis by (rule filter_unique [rotated])
  qed
  with s2 show ?thesis by blast
qed

theorem remoteJoin_idempotent_witness:
  "remoteJoin raw_String
     [\<lparr>Name = ''n1'', Addr = [10, 0, 0, 1], Role = ''consul:dc1:8300'', Status = StatusAlive\<rparr>,
      \<lparr>Name = ''w1'', Addr = [10, 0, 0, 9], Role = ''web'', Status = StatusAlive\<rparr>]
     empty_server
     = Inr (empty_server
         \<lparr>remoteConsuls := [''dc1'' \<mapsto> [\<lparr>IP = [10, 0, 0, 1], Port = 8300\<rparr>]],
          logs := [AddingServer ''dc1'' \<lparr>IP = [10, 0, 0, 1], Port = 8300\<rparr>, NonConsulInWAN ''w1'']\<rparr>) \<and>
   (\<exists>s2. remoteJoin raw_String
            [\<lparr>Name = ''n1'', Addr = [10, 0, 0, 1], Role = ''consul:dc1:8300'', Status = StatusAlive\<rparr>,
             \<lparr>Name = ''w1'', Addr = [10, 0, 0, 9], Role = ''web'', Status = StatusAlive\<rparr>]
            (empty_server
              \<lparr>remoteConsuls := [''dc1'' \<mapsto> [\<lparr>IP = [10, 0, 0, 1], Port = 8300\<rparr>]],
               logs := [AddingServer ''dc1'' \<lparr>IP = [10, 0, 0, 1], Port = 8300\<rparr>,
                        NonConsulInWAN ''w1'']\<rparr>) = Inr s2 \<and>
         remoteConsuls s2 ''dc1'' = Some [\<lparr>IP = [10, 0, 0, 1], Port = 8300\<rparr>] \<and>
         length (filter (\<lambda>e. raw_String e = raw_String \<lparr>IP = [10, 0, 0, 1], Port = 8300\<rparr>)
                   (map_index (remoteConsuls s2) ''dc1'')) = 1)"
proof -
  let ?a1 = "\<lparr>IP = [10, 0, 0, 1], Port = 8300\<rparr>"
  let ?m1 = "\<lparr>Name = ''n1'', Addr = [10, 0, 0, 1], Role = ''consul:dc1:8300'', Status = StatusAlive\<rparr>"
  let ?w1 = "\<lparr>Name = ''w1'', Addr = [10, 0, 0, 9], Role = ''web'', Status = StatusAlive\<rparr>"
  let ?s1 = "empty_server
         \<lparr>remoteConsuls := [''dc1'' \<mapsto> [?a1]],
          logs := [AddingServer ''dc1'' ?a1, NonConsulInWAN ''w1'']\<rparr>"
  have h1: "\<forall>dc l. remoteConsuls empty_server dc = Some l \<longrightarrow> l \<noteq> [] \<and> distinct (map raw_String l)"
    by (simp add: empty_server_def)
  have h2: "remoteJoin raw_String [?m1, ?w1] empty_server = Inr ?s1"
    by (simp add: evals raw_String_def)
  have c: "isConsulServer ?m1 empty_server = Inr ((True, ''dc1'', 8300), empty_server)"
    by (simp add: evals)
  from remoteJoin_idempotent [OF h1 h2] obtain s2 where
    r: "remoteJoin raw_String [?m1, ?w1] ?s1 = Inr s2"
    and d: "remoteConsuls s2 = remoteConsuls ?s1"
    and n: "\<forall>m\<in>set [?m1, ?w1]. \<forall>dc port.
              isConsulServer m empty_server = Inr ((True, dc, port), empty_server) \<longrightarrow>
              length (filter (\<lambda>e. raw_String e = raw_String \<lparr>IP = Addr m, Port = port\<rparr>)
                        (map_index (remoteConsuls s2) dc)) = 1"
    by blast
  from n c have "length (filter (\<lambda>e. raw_String e = raw_String ?a1)
                        (map_index (remoteConsuls s2) ''dc1'')) = 1"
    by fastforce
  moreover from d have "remoteConsuls s2 ''dc1'' = Some [?a1]"
    by (simp add: empty_server_def)
  ultimately show ?thesis using h2 r by blast
qed

end
